theory Spec2Isabelle
  imports Main "HOL-Library.Word"
begin

section \<open>The limit order book of Source.cpp\<close>

text \<open>
  A shallow embedding of \<^verbatim>\<open>Source.cpp\<close>: the classes \<^verbatim>\<open>Order\<close>, \<^verbatim>\<open>OrderModify\<close>,
  \<^verbatim>\<open>Trade\<close> and \<^verbatim>\<open>OrderBook\<close> with its operations \<^verbatim>\<open>CanMatch\<close>, \<^verbatim>\<open>MatchOrders\<close>,
  \<^verbatim>\<open>AddOrder\<close>, \<^verbatim>\<open>CancelOrder\<close>, \<^verbatim>\<open>MatchOrder\<close> (the modify operation) and
  \<^verbatim>\<open>GetOrderInfos\<close> (the depth query).

  Modelling decisions.
  \<^item> \<^verbatim>\<open>Quantity\<close> is \<^verbatim>\<open>std::uint32_t\<close> and \<^verbatim>\<open>OrderId\<close> is \<^verbatim>\<open>std::uint64_t\<close>: words of 32 and
    64 bits, so that sums of quantities wrap around as they do in the program.
  \<^item> \<^verbatim>\<open>Price\<close> is \<^verbatim>\<open>std::int32_t\<close>. The program only compares prices (signed comparison) and
    never computes with them, so a price is an \<open>int\<close>; every theorem holds for all integers,
    in particular for those of 32 bits.
  \<^item> A \<^verbatim>\<open>std::map\<close> is an association list kept in the order of its comparator
    (\<^verbatim>\<open>std::greater\<close> for the bids, \<^verbatim>\<open>std::less\<close> for the asks); \<^verbatim>\<open>begin()\<close> is its head.
  \<^item> The \<^verbatim>\<open>std::unordered_map\<close> \<^verbatim>\<open>orders_\<close> is a map \<open>OrderId \<rightharpoonup> OrderEntry\<close>.
  \<^item> An \<^verbatim>\<open>Order\<close> object is shared (\<^verbatim>\<open>std::shared_ptr\<close>) by its node in a level's
    \<^verbatim>\<open>std::list\<close> and by its entry in \<^verbatim>\<open>orders_\<close>. The model holds the value of the object
    in both places and writes every \<^verbatim>\<open>Fill\<close> to both (\<open>share\<close> below).
  \<^item> The iterator \<^verbatim>\<open>location_\<close> of an entry designates the list node that holds the entry's
    order. The model designates that node by the order's identifier: \<^verbatim>\<open>AddOrder\<close> refuses an
    identifier that is registered, so no two nodes of a book carry the same one.
  \<^item> The program binds references (\<^verbatim>\<open>auto&\<close>) to elements of its containers and reads some
    of them after the element has been destroyed: \<^verbatim>\<open>bid\<close> and \<^verbatim>\<open>ask\<close> after \<^verbatim>\<open>pop_front\<close>
    (lines 213, 217, 223, 224), \<^verbatim>\<open>bids\<close> and \<^verbatim>\<open>asks\<close> after \<^verbatim>\<open>bids_.erase\<close> and
    \<^verbatim>\<open>asks_.erase\<close> (line 203), \<^verbatim>\<open>order\<close> and \<^verbatim>\<open>iterator\<close> after \<^verbatim>\<open>orders_.erase\<close> (lines 279
    to 288), \<^verbatim>\<open>existing_order\<close> after \<^verbatim>\<open>CancelOrder\<close> (line 299). The language gives such a
    read, and the execution after it, no meaning. The model follows the lifetime of every
    reference. A read through a reference whose element has been destroyed is entered, with
    its source line, in the field \<open>undefined_reads\<close> of the book, a history that is no member
    of the class; the model then goes on with the contents the element had when it was
    destroyed, an erased level being the empty list it was. So a call whose result has the
    history it was given is an execution the language defines, and the model is exact for
    it; what the model returns for any other call is one of the behaviours the program may
    show, the one where the storage of a destroyed element keeps its contents.
  \<^item> Exceptions are values: \<open>LogicError\<close> for the \<^verbatim>\<open>std::logic_error\<close> of \<^verbatim>\<open>Order::Fill\<close>,
    \<open>OutOfRange\<close> for the \<^verbatim>\<open>std::out_of_range\<close> of \<^verbatim>\<open>std::map::at\<close>.
  \<^item> The loop \<^verbatim>\<open>while (true)\<close> of \<^verbatim>\<open>MatchOrders\<close> is a partial function: not returning is the
    value \<open>None\<close>.
  \<^item> Console output is not modelled.
\<close>

subsection \<open>Data\<close>

datatype OrderType = GoodTillCancel | FillAndKill

datatype Side = Buy | Sell

type_synonym Price = int
type_synonym Quantity = "32 word"
type_synonym OrderId = "64 word"

record LevelInfo =
  li_price :: Price
  li_quantity :: Quantity

type_synonym LevelInfos = "LevelInfo list"

record OrderBookLevelInfos =
  info_bids :: LevelInfos
  info_asks :: LevelInfos

record Order =
  order_type :: OrderType
  order_id :: OrderId
  side :: Side
  initial_quantity :: Quantity
  remaining_quantity :: Quantity
  price :: Price

datatype error = LogicError | OutOfRange

text \<open>The constructor \<^verbatim>\<open>Order::Order\<close>: the remaining quantity starts as the initial one.\<close>

definition new_Order :: "OrderType \<Rightarrow> OrderId \<Rightarrow> Side \<Rightarrow> Price \<Rightarrow> Quantity \<Rightarrow> Order" where
  "new_Order ty oid sd pr quantity =
     \<lparr>order_type = ty, order_id = oid, side = sd,
      initial_quantity = quantity, remaining_quantity = quantity, price = pr\<rparr>"

definition GetFilledQuantity :: "Order \<Rightarrow> Quantity" where
  "GetFilledQuantity ord = initial_quantity ord - remaining_quantity ord"

definition IsFilled :: "Order \<Rightarrow> bool" where
  "IsFilled ord \<longleftrightarrow> remaining_quantity ord = 0"

definition Fill :: "Quantity \<Rightarrow> Order \<Rightarrow> error + Order" where
  "Fill quantity ord =
     (if quantity > remaining_quantity ord then Inl LogicError
      else Inr (ord\<lparr>remaining_quantity := remaining_quantity ord - quantity\<rparr>))"

type_synonym OrderPointers = "Order list"

record OrderModify =
  om_order_id :: OrderId
  om_side :: Side
  om_price :: Price
  om_quantity :: Quantity

definition ToOrderPointer :: "OrderModify \<Rightarrow> OrderType \<Rightarrow> Order" where
  "ToOrderPointer m ty = new_Order ty (om_order_id m) (om_side m) (om_price m) (om_quantity m)"

record TradeInfo =
  ti_order_id :: OrderId
  ti_price :: Price
  ti_quantity :: Quantity

record Trade =
  bid_trade :: TradeInfo
  ask_trade :: TradeInfo

type_synonym Trades = "Trade list"

record OrderEntry =
  entry_order :: Order

type_synonym Levels = "(Price \<times> OrderPointers) list"

text \<open>
  The references of the program that outlive the element they were bound to, named as in
  the source, and a read through one of them at a line of \<^verbatim>\<open>Source.cpp\<close>.
\<close>

datatype reference =
  Bid_ref | Ask_ref | Bids_ref | Asks_ref | Order_ref | Iterator_ref | Existing_order_ref

type_synonym undefined_read = "reference \<times> nat"

text \<open>
  The members \<^verbatim>\<open>bids_\<close>, \<^verbatim>\<open>asks_\<close> and \<^verbatim>\<open>orders_\<close> of the class, and the history of the reads
  of destroyed elements made on this book so far.
\<close>

record OrderBook =
  bids :: Levels
  asks :: Levels
  orders :: "OrderId \<rightharpoonup> OrderEntry"
  undefined_reads :: "undefined_read list"

definition empty_book :: OrderBook where
  "empty_book = \<lparr>bids = [], asks = [], orders = Map.empty, undefined_reads = []\<rparr>"

subsection \<open>The two ordered maps\<close>

text \<open>
  \<^verbatim>\<open>std::map<Price, OrderPointers, Compare>\<close> as a list of (price, queue) pairs in the order
  of \<open>cmp\<close>. \<open>level_subscript\<close> is \<^verbatim>\<open>operator[]\<close>, which adds an empty queue at a price that
  has none; \<open>level_assign\<close> writes through a reference to the queue of a price;
  \<open>level_erase\<close> is \<^verbatim>\<open>erase(key)\<close>; \<open>level\<close> reads the queue of a price through a reference
  to it.
\<close>

fun level_subscript :: "(Price \<Rightarrow> Price \<Rightarrow> bool) \<Rightarrow> Price \<Rightarrow> Levels \<Rightarrow> Levels" where
  "level_subscript cmp p [] = [(p, [])]"
| "level_subscript cmp p ((k, q) # m) =
     (if k = p then (k, q) # m
      else if cmp p k then (p, []) # (k, q) # m
      else (k, q) # level_subscript cmp p m)"

fun level_assign :: "Price \<Rightarrow> OrderPointers \<Rightarrow> Levels \<Rightarrow> Levels" where
  "level_assign p v [] = []"
| "level_assign p v ((k, q) # m) =
     (if k = p then (k, v) # m else (k, q) # level_assign p v m)"

fun level_erase :: "Price \<Rightarrow> Levels \<Rightarrow> Levels" where
  "level_erase p [] = []"
| "level_erase p ((k, q) # m) = (if k = p then m else (k, q) # level_erase p m)"

definition level :: "Price \<Rightarrow> Levels \<Rightarrow> OrderPointers" where
  "level p m = (case map_of m p of None \<Rightarrow> [] | Some q \<Rightarrow> q)"

text \<open>\<^verbatim>\<open>orders.erase(iterator)\<close>: the node of the order with this identifier leaves the queue.\<close>

fun erase_node :: "OrderId \<Rightarrow> OrderPointers \<Rightarrow> OrderPointers" where
  "erase_node i [] = []"
| "erase_node i (x # xs) = (if order_id x = i then xs else x # erase_node i xs)"

text \<open>A write to an \<^verbatim>\<open>Order\<close> object is seen through the registry's pointer to it.\<close>

definition share :: "Order \<Rightarrow> (OrderId \<rightharpoonup> OrderEntry) \<Rightarrow> (OrderId \<rightharpoonup> OrderEntry)" where
  "share ord reg =
     (case reg (order_id ord) of
        None \<Rightarrow> reg
      | Some e \<Rightarrow> reg(order_id ord \<mapsto> e\<lparr>entry_order := ord\<rparr>))"

subsection \<open>Reads through references\<close>

text \<open>
  \<open>dangling_read r line\<close> enters in the history a read, at the source line given, through
  the reference \<open>r\<close> whose element has been destroyed. A reference into the registry node of
  an identifier (\<^verbatim>\<open>order\<close>, \<^verbatim>\<open>iterator\<close>, \<^verbatim>\<open>existing_order\<close>) is alive as long as the registry
  holds the identifier: between the binding of such a reference and its reads the program
  inserts no node. \<open>read_entry\<close> is a read through such a reference. A reference to a
  level (\<^verbatim>\<open>bids\<close>, \<^verbatim>\<open>asks\<close>) is alive as long as the map holds the key of the level
  (\<open>match_level\<close> below). A reference to the front node of a queue (\<^verbatim>\<open>bid\<close>, \<^verbatim>\<open>ask\<close>) is alive
  until \<^verbatim>\<open>pop_front\<close> is called on that queue (\<open>match_front\<close> below).
\<close>

definition dangling_read :: "reference \<Rightarrow> nat \<Rightarrow> OrderBook \<Rightarrow> OrderBook" where
  "dangling_read r line b = b\<lparr>undefined_reads := undefined_reads b @ [(r, line)]\<rparr>"

definition read_entry :: "reference \<Rightarrow> nat \<Rightarrow> OrderId \<Rightarrow> OrderBook \<Rightarrow> OrderBook" where
  "read_entry r line oid b = (if oid \<in> dom (orders b) then b else dangling_read r line b)"

lemma dangling_read_simps [simp]:
  "bids (dangling_read r line b) = bids b"
  "asks (dangling_read r line b) = asks b"
  "orders (dangling_read r line b) = orders b"
  "undefined_reads (dangling_read r line b) = undefined_reads b @ [(r, line)]"
  by (simp_all add: dangling_read_def)

subsection \<open>The operations of OrderBook\<close>

definition Size :: "OrderBook \<Rightarrow> nat" where
  "Size b = card (dom (orders b))"

definition CanMatch :: "OrderBook \<Rightarrow> Side \<Rightarrow> Price \<Rightarrow> bool" where
  "CanMatch b sd pr =
     (if sd = Buy then
        (case asks b of [] \<Rightarrow> False | (best_ask, _) # _ \<Rightarrow> pr \<ge> best_ask)
      else
        (case bids b of [] \<Rightarrow> False | (best_bid, _) # _ \<Rightarrow> pr \<le> best_bid))"

text \<open>
  The body of the inner loop of \<^verbatim>\<open>MatchOrders\<close> (lines 204 to 225), statement by statement.
  \<open>bid_price\<close> and \<open>ask_price\<close> are the keys of the two levels the references \<^verbatim>\<open>bids\<close> and
  \<^verbatim>\<open>asks\<close> were bound to; the loop condition has checked that both queues have a front.
  \<^verbatim>\<open>bid\<close> and \<^verbatim>\<open>ask\<close> are references to the front nodes (lines 204 and 205). When the bid is
  filled, line 212 destroys the node of \<^verbatim>\<open>bid\<close>, and line 213 reads the identifier through
  \<^verbatim>\<open>bid\<close> to erase it from the registry; line 223 reads identifier and price through \<^verbatim>\<open>bid\<close>
  again for the trade. Lines 216, 217 and 224 do the same with \<^verbatim>\<open>ask\<close>. The language
  leaves open which argument of the constructor of \<^verbatim>\<open>Trade\<close> is evaluated first; the history
  lists the read of line 223 before that of line 224.
\<close>

definition match_front ::
  "Price \<Rightarrow> Price \<Rightarrow> OrderBook \<Rightarrow> Trades \<Rightarrow> error + (OrderBook \<times> Trades)" where
  "match_front bid_price ask_price b trades =
     (let bid = hd (level bid_price (bids b));
          ask = hd (level ask_price (asks b));
          quantity = min (remaining_quantity bid) (remaining_quantity ask)
      in case Fill quantity bid of
           Inl e \<Rightarrow> Inl e
         | Inr bid' \<Rightarrow>
            (case Fill quantity ask of
               Inl e \<Rightarrow> Inl e
             | Inr ask' \<Rightarrow>
                (let b1 = b\<lparr>bids := level_assign bid_price
                                      (bid' # tl (level bid_price (bids b))) (bids b),
                             orders := share bid' (orders b)\<rparr>;
                     b2 = b1\<lparr>asks := level_assign ask_price
                                      (ask' # tl (level ask_price (asks b1))) (asks b1),
                              orders := share ask' (orders b1)\<rparr>;
                     bid_popped = IsFilled bid';
                     b3 = (if bid_popped
                           then (let c = dangling_read Bid_ref 213
                                     (b2\<lparr>bids := level_assign bid_price
                                                   (tl (level bid_price (bids b2))) (bids b2)\<rparr>)
                                 in c\<lparr>orders := (orders c)(order_id bid' := None)\<rparr>)
                           else b2);
                     ask_popped = IsFilled ask';
                     b4 = (if ask_popped
                           then (let c = dangling_read Ask_ref 217
                                     (b3\<lparr>asks := level_assign ask_price
                                                   (tl (level ask_price (asks b3))) (asks b3)\<rparr>)
                                 in c\<lparr>orders := (orders c)(order_id ask' := None)\<rparr>)
                           else b3);
                     b5 = (if level bid_price (bids b4) = []
                           then b4\<lparr>bids := level_erase bid_price (bids b4)\<rparr> else b4);
                     b6 = (if level ask_price (asks b5) = []
                           then b5\<lparr>asks := level_erase ask_price (asks b5)\<rparr> else b5);
                     b7 = (if bid_popped then dangling_read Bid_ref 223 b6 else b6);
                     b8 = (if ask_popped then dangling_read Ask_ref 224 b7 else b7)
                 in Inr (b8, trades @
                      [\<lparr>bid_trade = \<lparr>ti_order_id = order_id bid', ti_price = price bid',
                                      ti_quantity = quantity\<rparr>,
                        ask_trade = \<lparr>ti_order_id = order_id ask', ti_price = price ask',
                                      ti_quantity = quantity\<rparr>\<rparr>]))))"

definition order_count :: "OrderBook \<Rightarrow> nat" where
  "order_count b = length (concat (map snd (bids b))) + length (concat (map snd (asks b)))"

subsection \<open>The inner loop ends\<close>

text \<open>
  Each run of the loop body takes at least one order out of the book, because the quantity
  filled is the smaller of the two remaining quantities; so each run reads a destroyed
  front node. \<open>side_after\<close>, \<open>filled_by\<close>, \<open>front_reads\<close> and \<open>match_front_eq\<close> give the effect
  of the body in closed form.
\<close>

definition queue_count :: "Levels \<Rightarrow> nat" where
  "queue_count m = length (concat (map snd m))"

lemma map_of_level_assign:
  "map_of m p = Some q \<Longrightarrow> map_of (level_assign p v m) p = Some v"
  by (induction m) (auto split: if_splits)

lemma level_level_assign:
  "map_of m p = Some q \<Longrightarrow> level p (level_assign p v m) = v"
  by (simp add: level_def map_of_level_assign)

lemma queue_count_level_assign:
  "map_of m p = Some q \<Longrightarrow>
     queue_count (level_assign p v m) + length q = queue_count m + length v"
  by (induction m) (auto simp: queue_count_def split: if_splits)

lemma queue_count_level_erase:
  "level p m = [] \<Longrightarrow> queue_count (level_erase p m) = queue_count m"
  by (induction m) (auto simp: queue_count_def level_def split: if_splits option.splits)

definition side_after :: "Price \<Rightarrow> Order \<Rightarrow> Levels \<Rightarrow> Levels" where
  "side_after p ord m =
     (let m1 = level_assign p (ord # tl (level p m)) m;
          m2 = (if IsFilled ord then level_assign p (tl (level p m1)) m1 else m1)
      in if level p m2 = [] then level_erase p m2 else m2)"

definition filled_by :: "Quantity \<Rightarrow> Order \<Rightarrow> Order" where
  "filled_by quantity ord = ord\<lparr>remaining_quantity := remaining_quantity ord - quantity\<rparr>"

lemma Fill_min_bid:
  "Fill (min (remaining_quantity x) (remaining_quantity y)) x =
     Inr (filled_by (min (remaining_quantity x) (remaining_quantity y)) x)"
  by (simp add: Fill_def filled_by_def)

lemma Fill_min_ask:
  "Fill (min (remaining_quantity x) (remaining_quantity y)) y =
     Inr (filled_by (min (remaining_quantity x) (remaining_quantity y)) y)"
  by (simp add: Fill_def filled_by_def)

definition front_reads :: "Order \<Rightarrow> Order \<Rightarrow> undefined_read list" where
  "front_reads bid' ask' =
     (if IsFilled bid' then [(Bid_ref, 213)] else []) @
     (if IsFilled ask' then [(Ask_ref, 217)] else []) @
     (if IsFilled bid' then [(Bid_ref, 223)] else []) @
     (if IsFilled ask' then [(Ask_ref, 224)] else [])"

lemma match_front_eq:
  "match_front bp ap b trades =
     (let bid = hd (level bp (bids b)); ask = hd (level ap (asks b));
          quantity = min (remaining_quantity bid) (remaining_quantity ask);
          bid' = filled_by quantity bid; ask' = filled_by quantity ask
      in Inr (\<lparr>bids = side_after bp bid' (bids b), asks = side_after ap ask' (asks b),
               orders = (if IsFilled ask' then (\<lambda>r. r(order_id ask' := None)) else id)
                  ((if IsFilled bid' then (\<lambda>r. r(order_id bid' := None)) else id)
                     (share ask' (share bid' (orders b)))),
               undefined_reads = undefined_reads b @ front_reads bid' ask'\<rparr>,
              trades @ [\<lparr>bid_trade = \<lparr>ti_order_id = order_id bid, ti_price = price bid,
                                      ti_quantity = quantity\<rparr>,
                        ask_trade = \<lparr>ti_order_id = order_id ask, ti_price = price ask,
                                      ti_quantity = quantity\<rparr>\<rparr>]))"
proof -
  define bid where "bid = hd (level bp (bids b))"
  define ask where "ask = hd (level ap (asks b))"
  define quantity where "quantity = min (remaining_quantity bid) (remaining_quantity ask)"
  define bid' where "bid' = filled_by quantity bid"
  define ask' where "ask' = filled_by quantity ask"
  have fb: "Fill quantity bid = Inr bid'" and fa: "Fill quantity ask = Inr ask'"
    unfolding quantity_def bid'_def ask'_def by (rule Fill_min_bid, rule Fill_min_ask)
  have ids: "order_id bid' = order_id bid" "price bid' = price bid"
     "order_id ask' = order_id ask" "price ask' = price ask"
    by (simp_all add: bid'_def ask'_def filled_by_def)
  have b: "bid = hd (level bp (bids b))" "ask = hd (level ap (asks b))"
    by (simp_all add: bid_def ask_def)
  have q: "min (remaining_quantity bid) (remaining_quantity ask) = quantity"
    by (simp add: quantity_def)
  show ?thesis
    unfolding match_front_def b [symmetric]
    by (cases "IsFilled bid'"; cases "IsFilled ask'")
       (simp_all add: Let_def q fb fa bid'_def [symmetric] ask'_def [symmetric]
          side_after_def ids front_reads_def OrderBook.equality)
qed

lemma side_after_count:
  assumes "level p m \<noteq> []"
  shows "queue_count (side_after p ord m) + (if IsFilled ord then 1 else 0) = queue_count m"
proof -
  obtain q where q: "map_of m p = Some q" "q \<noteq> []"
    using assms by (auto simp: level_def split: option.splits)
  define m1 where "m1 = level_assign p (ord # tl q) m"
  define m2 where "m2 = (if IsFilled ord then level_assign p (tl q) m1 else m1)"
  have lq: "level p m = q" using q by (simp add: level_def)
  have m1: "map_of m1 p = Some (ord # tl q)" "queue_count m1 = queue_count m"
    using q queue_count_level_assign [OF q(1), of "ord # tl q"]
    by (auto simp: m1_def map_of_level_assign)
  have l1: "level p m1 = ord # tl q" using m1 by (simp add: level_def)
  have m2: "queue_count m2 + (if IsFilled ord then 1 else 0) = queue_count m1"
    using queue_count_level_assign [OF m1(1), of "tl q"] by (auto simp: m2_def)
  have "side_after p ord m = (if level p m2 = [] then level_erase p m2 else m2)"
    by (simp add: side_after_def Let_def lq l1 m1_def [symmetric] m2_def)
  then have "queue_count (side_after p ord m) = queue_count m2"
    by (simp add: queue_count_level_erase)
  with m2 m1 show ?thesis by simp
qed

lemma filled_by_min:
  "IsFilled (filled_by (min (remaining_quantity x) (remaining_quantity y)) x) \<or>
   IsFilled (filled_by (min (remaining_quantity x) (remaining_quantity y)) y)"
  by (simp add: IsFilled_def filled_by_def min_def)

lemma match_front_count:
  assumes "level bp (bids b) \<noteq> []" and "level ap (asks b) \<noteq> []"
    and "match_front bp ap b trades = Inr (b', trades')"
  shows "order_count b' < order_count b"
proof -
  define bid where "bid = hd (level bp (bids b))"
  define ask where "ask = hd (level ap (asks b))"
  define quantity where "quantity = min (remaining_quantity bid) (remaining_quantity ask)"
  have b': "bids b' = side_after bp (filled_by quantity bid) (bids b)"
       "asks b' = side_after ap (filled_by quantity ask) (asks b)"
    using assms(3) unfolding match_front_eq Let_def bid_def ask_def quantity_def by auto
  have "IsFilled (filled_by quantity bid) \<or> IsFilled (filled_by quantity ask)"
    unfolding quantity_def by (rule filled_by_min)
  then show ?thesis
    using side_after_count [OF assms(1), of "filled_by quantity bid"]
      side_after_count [OF assms(2), of "filled_by quantity ask"]
    by (auto simp: order_count_def b' queue_count_def split: if_splits)
qed

lemma match_front_reads:
  assumes "match_front bp ap b trades = Inr (b', trades')"
  shows "\<exists>r rs. undefined_reads b' = undefined_reads b @ r # rs \<and>
     (r = (Bid_ref, 213) \<or> r = (Ask_ref, 217))"
proof -
  define bid where "bid = hd (level bp (bids b))"
  define ask where "ask = hd (level ap (asks b))"
  define quantity where "quantity = min (remaining_quantity bid) (remaining_quantity ask)"
  have u: "undefined_reads b' =
      undefined_reads b @ front_reads (filled_by quantity bid) (filled_by quantity ask)"
    using assms unfolding match_front_eq Let_def bid_def ask_def quantity_def by auto
  have "IsFilled (filled_by quantity bid) \<or> IsFilled (filled_by quantity ask)"
    unfolding quantity_def by (rule filled_by_min)
  then show ?thesis unfolding u front_reads_def by auto
qed

text \<open>
  The inner loop \<^verbatim>\<open>while (bids.size() && asks.size())\<close> of \<^verbatim>\<open>MatchOrders\<close>. The condition
  reads the two levels through the references \<^verbatim>\<open>bids\<close> and \<^verbatim>\<open>asks\<close>, bound before the loop to
  the first nodes of the two maps; \<open>bid_price\<close> and \<open>ask_price\<close> are their keys. \<^verbatim>\<open>MatchOrders\<close>
  adds no level, so a level is alive as long as its key is in its map. Where line 219 has
  erased the level of \<^verbatim>\<open>bids\<close>, the condition reads the size of a destroyed list, which was
  empty, and the loop ends; \<^verbatim>\<open>asks.size()\<close> is read only where \<^verbatim>\<open>bids.size()\<close> is not zero.
\<close>

function match_level ::
  "Price \<Rightarrow> Price \<Rightarrow> OrderBook \<Rightarrow> Trades \<Rightarrow> error + (OrderBook \<times> Trades)" where
  "match_level bid_price ask_price b trades =
     (case map_of (bids b) bid_price of
        None \<Rightarrow> Inr (dangling_read Bids_ref 203 b, trades)
      | Some bid_queue \<Rightarrow>
         if bid_queue = [] then Inr (b, trades)
         else
           (case map_of (asks b) ask_price of
              None \<Rightarrow> Inr (dangling_read Asks_ref 203 b, trades)
            | Some ask_queue \<Rightarrow>
               if ask_queue = [] then Inr (b, trades)
               else
                 (case match_front bid_price ask_price b trades of
                    Inl e \<Rightarrow> Inl e
                  | Inr (b', trades') \<Rightarrow> match_level bid_price ask_price b' trades')))"
  by pat_completeness auto
termination
proof (relation "measure (\<lambda>(bid_price, ask_price, b, trades). order_count b)")
  show "wf (measure (\<lambda>(bid_price, ask_price, b, trades). order_count b))" by simp
next
  fix bid_price ask_price :: Price and b b' :: OrderBook and trades trades' :: Trades
    and bid_queue ask_queue :: OrderPointers and x
  assume "map_of (bids b) bid_price = Some bid_queue" "bid_queue \<noteq> []"
    "map_of (asks b) ask_price = Some ask_queue" "ask_queue \<noteq> []"
    "match_front bid_price ask_price b trades = Inr x" "(b', trades') = x"
  then have "level bid_price (bids b) \<noteq> []" "level ask_price (asks b) \<noteq> []"
    "match_front bid_price ask_price b trades = Inr (b', trades')"
    by (simp_all add: level_def)
  then have "order_count b' < order_count b" by (rule match_front_count)
  then show "((bid_price, ask_price, b', trades'), (bid_price, ask_price, b, trades))
      \<in> measure (\<lambda>(bid_price, ask_price, b, trades). order_count b)"
    by simp
qed

text \<open>
  The outer loop \<^verbatim>\<open>while (true)\<close> of \<^verbatim>\<open>MatchOrders\<close>. It has no bound of its own: on a book
  whose best levels cross and one of them holds an empty queue it runs forever.
\<close>

partial_function (option) MatchOrders_loop ::
  "OrderBook \<Rightarrow> Trades \<Rightarrow> (error + (Trades \<times> OrderBook)) option" where
  "MatchOrders_loop b trades =
     (if bids b = [] \<or> asks b = [] then Some (Inr (trades, b))
      else
        (let bid_price = fst (hd (bids b)); ask_price = fst (hd (asks b))
         in if bid_price < ask_price then Some (Inr (trades, b))
            else
              (case match_level bid_price ask_price b trades of
                 Inl e \<Rightarrow> Some (Inl e)
               | Inr (b', trades') \<Rightarrow> MatchOrders_loop b' trades')))"

text \<open>
  \<^verbatim>\<open>MatchOrders\<close>. The two blocks after the loop (lines 228 to 242) read the front order of
  the best level of each side and compare its type; the call of \<^verbatim>\<open>CancelOrder\<close> in each is
  commented out, so they change nothing and the trades of the loop are returned.
\<close>

definition MatchOrders :: "OrderBook \<Rightarrow> (error + (Trades \<times> OrderBook)) option" where
  "MatchOrders b = MatchOrders_loop b []"

text \<open>
  Lines 256 to 268 of \<^verbatim>\<open>AddOrder\<close>: the order goes to the back of the queue of its price,
  on its side, and into the registry. \<^verbatim>\<open>orders_.insert\<close> keeps an entry that exists; here
  the identifier has none.
\<close>

definition insert_order :: "Order \<Rightarrow> OrderBook \<Rightarrow> OrderBook" where
  "insert_order ord b =
     (let b1 =
        (if side ord = Buy then
           (let m = level_subscript (\<lambda>x y. x > y) (price ord) (bids b)
            in b\<lparr>bids := level_assign (price ord) (level (price ord) m @ [ord]) m\<rparr>)
         else
           (let m = level_subscript (\<lambda>x y. x < y) (price ord) (asks b)
            in b\<lparr>asks := level_assign (price ord) (level (price ord) m @ [ord]) m\<rparr>))
      in b1\<lparr>orders := (orders b1)(order_id ord \<mapsto> \<lparr>entry_order = ord\<rparr>)\<rparr>)"

definition AddOrder :: "Order \<Rightarrow> OrderBook \<Rightarrow> (error + (Trades \<times> OrderBook)) option" where
  "AddOrder ord b =
     (if order_id ord \<in> dom (orders b) then Some (Inr ([], b))
      else if order_type ord = FillAndKill \<and> \<not> CanMatch b (side ord) (price ord)
      then Some (Inr ([], b))
      else MatchOrders (insert_order ord b))"

text \<open>
  \<^verbatim>\<open>CancelOrder\<close>. Line 276 binds \<^verbatim>\<open>order\<close> and \<^verbatim>\<open>iterator\<close> as references into the registry
  node of the identifier, and line 277 erases that node. Lines 279 and 280 (286) then read
  side and price through \<^verbatim>\<open>order\<close>, and line 282 (288) reads \<^verbatim>\<open>iterator\<close>.
\<close>

definition CancelOrder :: "OrderId \<Rightarrow> OrderBook \<Rightarrow> error + OrderBook" where
  "CancelOrder oid b =
     (case orders b oid of
        None \<Rightarrow> Inr b
      | Some entry \<Rightarrow>
         (let b1 = b\<lparr>orders := (orders b)(oid := None)\<rparr>;
              ord = entry_order entry;
              b2 = read_entry Order_ref 279 oid b1
          in if side ord = Sell then
               (let b3 = read_entry Order_ref 280 oid b2;
                    pr = price ord
                in case map_of (asks b3) pr of
                     None \<Rightarrow> Inl OutOfRange
                   | Some queue \<Rightarrow>
                      (let b4 = read_entry Iterator_ref 282 oid b3;
                           b5 = b4\<lparr>asks := level_assign pr (erase_node oid queue) (asks b4)\<rparr>
                       in Inr (if level pr (asks b5) = []
                               then b5\<lparr>asks := level_erase pr (asks b5)\<rparr> else b5)))
             else
               (let b3 = read_entry Order_ref 286 oid b2;
                    pr = price ord
                in case map_of (bids b3) pr of
                     None \<Rightarrow> Inl OutOfRange
                   | Some queue \<Rightarrow>
                      (let b4 = read_entry Iterator_ref 288 oid b3;
                           b5 = b4\<lparr>bids := level_assign pr (erase_node oid queue) (bids b4)\<rparr>
                       in Inr (if level pr (bids b5) = []
                               then b5\<lparr>bids := level_erase pr (bids b5)\<rparr> else b5)))))"

text \<open>
  \<^verbatim>\<open>MatchOrder\<close> is the modify operation. Line 297 binds \<^verbatim>\<open>existing_order\<close> as a reference
  into the registry node of the identifier, line 298 calls \<^verbatim>\<open>CancelOrder\<close>, and line 299
  reads the type of the order through \<^verbatim>\<open>existing_order\<close> for the order it adds.
\<close>

definition MatchOrder ::
  "OrderModify \<Rightarrow> OrderBook \<Rightarrow> (error + (Trades \<times> OrderBook)) option" where
  "MatchOrder m b =
     (case orders b (om_order_id m) of
        None \<Rightarrow> Some (Inr ([], b))
      | Some existing \<Rightarrow>
         (case CancelOrder (om_order_id m) b of
            Inl e \<Rightarrow> Some (Inl e)
          | Inr b1 \<Rightarrow>
             (let b2 = read_entry Existing_order_ref 299 (om_order_id m) b1
              in AddOrder (ToOrderPointer m (order_type (entry_order existing))) b2)))"

text \<open>
  \<^verbatim>\<open>GetOrderInfos\<close> is a \<^verbatim>\<open>const\<close> member: a function of the book that returns no new book.
  \<^verbatim>\<open>std::accumulate\<close> starts at \<^verbatim>\<open>(Quantity)0\<close> and adds in \<^verbatim>\<open>Quantity\<close>.
\<close>

definition CreateLevelInfos :: "Price \<Rightarrow> OrderPointers \<Rightarrow> LevelInfo" where
  "CreateLevelInfos pr queue =
     \<lparr>li_price = pr,
      li_quantity = foldl (\<lambda>running_sum ord. running_sum + remaining_quantity ord) 0 queue\<rparr>"

definition GetOrderInfos :: "OrderBook \<Rightarrow> OrderBookLevelInfos" where
  "GetOrderInfos b =
     \<lparr>info_bids = map (\<lambda>(pr, queue). CreateLevelInfos pr queue) (bids b),
      info_asks = map (\<lambda>(pr, queue). CreateLevelInfos pr queue) (asks b)\<rparr>"


subsection \<open>Well-formed books\<close>

text \<open>
  \<open>book_ok\<close> is what the containers of a book satisfy between calls: each map is in the
  order of its comparator with one entry for a price, no queue is empty, an order rests at
  its own price on its own side, no two resting orders share an identifier, and the
  registry holds exactly the resting orders, each under its identifier. The empty book
  satisfies it and the insertion of \<^verbatim>\<open>AddOrder\<close> keeps it (\<open>book_ok_empty\<close>,
  \<open>insert_order_ok\<close> below). \<open>crossing\<close> is the condition under which the outer loop of
  \<^verbatim>\<open>MatchOrders\<close> goes on.
\<close>

declare match_level.simps [simp del]

definition levels_ok :: "(Price \<Rightarrow> Price \<Rightarrow> bool) \<Rightarrow> Side \<Rightarrow> Levels \<Rightarrow> bool" where
  "levels_ok cmp sd m \<longleftrightarrow>
     sorted_wrt cmp (map fst m) \<and>
     (\<forall>(p, q) \<in> set m. q \<noteq> [] \<and> (\<forall>ord \<in> set q. side ord = sd \<and> price ord = p))"

definition resting :: "OrderBook \<Rightarrow> Order list" where
  "resting b = concat (map snd (bids b)) @ concat (map snd (asks b))"

definition book_ok :: "OrderBook \<Rightarrow> bool" where
  "book_ok b \<longleftrightarrow>
     levels_ok (\<lambda>x y. x > y) Buy (bids b) \<and>
     levels_ok (\<lambda>x y. x < y) Sell (asks b) \<and>
     distinct (map order_id (resting b)) \<and>
     (\<forall>i e. orders b i = Some e \<longleftrightarrow>
        entry_order e \<in> set (resting b) \<and> order_id (entry_order e) = i)"

definition crossing :: "OrderBook \<Rightarrow> bool" where
  "crossing b \<longleftrightarrow> bids b \<noteq> [] \<and> asks b \<noteq> [] \<and> fst (hd (asks b)) \<le> fst (hd (bids b))"

lemma levels_ok_keys_distinct:
  assumes "levels_ok cmp sd m" and "\<And>x. \<not> cmp x x"
  shows "distinct (map fst m)"
proof -
  have "sorted_wrt cmp (map fst m)" using assms(1) by (simp add: levels_ok_def)
  then show ?thesis
    by (induction m) (auto simp: assms(2))
qed


lemma level_absent: "p \<notin> fst ` set m \<Longrightarrow> level p m = []"
  by (simp add: level_def map_of_eq_None_iff [THEN iffD2])

lemma MatchOrders_loop_stop:
  "\<not> crossing b \<Longrightarrow> MatchOrders_loop b trades = Some (Inr (trades, b))"
  by (subst MatchOrders_loop.simps) (auto simp: crossing_def Let_def)

subsection \<open>Fill never raises in the loop\<close>

text \<open>
  \<^verbatim>\<open>Order::Fill\<close> raises exactly when the quantity asked exceeds the remaining quantity. The
  loop asks both fills for the smaller of the two remaining quantities, so no run of its
  body and no call of \<^verbatim>\<open>MatchOrders\<close> gives \<open>LogicError\<close>.
\<close>

lemma Fill_raises_iff:
  "(\<exists>e. Fill quantity ord = Inl e) \<longleftrightarrow> remaining_quantity ord < quantity"
  by (simp add: Fill_def)

lemma match_front_Inr: "match_front bp ap b trades \<noteq> Inl e"
  by (simp add: match_front_eq Let_def)

lemma match_level_Inr: "match_level bp ap b trades \<noteq> Inl e"
proof (induction bp ap b trades rule: match_level.induct)
  case (1 bp ap b trades)
  show ?case
  proof (cases "\<exists>bq aq. map_of (bids b) bp = Some bq \<and> bq \<noteq> [] \<and>
      map_of (asks b) ap = Some aq \<and> aq \<noteq> []")
    case False
    then show ?thesis
      by (subst match_level.simps) (auto split: option.splits)
  next
    case True
    then obtain bq aq where h: "map_of (bids b) bp = Some bq" "bq \<noteq> []"
      "map_of (asks b) ap = Some aq" "aq \<noteq> []" by blast
    obtain b' trades' where mf: "match_front bp ap b trades = Inr (b', trades')"
      by (cases "match_front bp ap b trades") (auto simp: match_front_Inr)
    have "match_level bp ap b trades = match_level bp ap b' trades'"
      by (subst match_level.simps) (use h mf in simp)
    with "1.IH" [OF h mf refl] show ?thesis by simp
  qed
qed

lemma MatchOrders_loop_Inr: "MatchOrders_loop b trades \<noteq> Some (Inl e)"
proof -
  have "\<forall>e. y \<noteq> Inl e" if "MatchOrders_loop b trades = Some y" for y
  proof (rule MatchOrders_loop.raw_induct [where P = "\<lambda>b trades y. \<forall>e. y \<noteq> Inl e", OF _ that])
    fix loop :: "OrderBook \<Rightarrow> Trades \<Rightarrow> (error + (Trades \<times> OrderBook)) option"
      and b trades y
    assume "\<And>b trades y. loop b trades = Some y \<Longrightarrow> \<forall>e. y \<noteq> Inl e"
      and "(if bids b = [] \<or> asks b = [] then Some (Inr (trades, b))
        else let bid_price = fst (hd (bids b)); ask_price = fst (hd (asks b))
             in if bid_price < ask_price then Some (Inr (trades, b))
                else case match_level bid_price ask_price b trades of
                     Inl e \<Rightarrow> Some (Inl e)
                     | Inr (b', trades') \<Rightarrow> loop b' trades') = Some y"
    then show "\<forall>e. y \<noteq> Inl e"
      by (auto simp: Let_def match_level_Inr split: if_splits sum.splits)
  qed
  then show ?thesis by blast
qed

subsection \<open>AddOrder on a well-formed book\<close>

text \<open>\<open>level_push\<close> is the effect of lines 258 and 259 (263 and 264) on the map of the side.\<close>

definition level_push :: "(Price \<Rightarrow> Price \<Rightarrow> bool) \<Rightarrow> Order \<Rightarrow> Levels \<Rightarrow> Levels" where
  "level_push cmp ord m =
     (let m' = level_subscript cmp (price ord) m
      in level_assign (price ord) (level (price ord) m' @ [ord]) m')"

lemma level_push_Nil: "level_push cmp ord [] = [(price ord, [ord])]"
  by (simp add: level_push_def level_def)

lemma level_push_Cons:
  "level_push cmp ord ((k, q) # m) =
     (if k = price ord then (k, q @ [ord]) # m
      else if cmp (price ord) k then (price ord, [ord]) # (k, q) # m
      else (k, q) # level_push cmp ord m)"
  by (simp add: level_push_def level_def Let_def)

lemma insert_order_eq:
  "insert_order ord b =
     (if side ord = Buy
      then b\<lparr>bids := level_push (\<lambda>x y. x > y) ord (bids b),
             orders := (orders b)(order_id ord \<mapsto> \<lparr>entry_order = ord\<rparr>)\<rparr>
      else b\<lparr>asks := level_push (\<lambda>x y. x < y) ord (asks b),
             orders := (orders b)(order_id ord \<mapsto> \<lparr>entry_order = ord\<rparr>)\<rparr>)"
  by (simp add: insert_order_def level_push_def Let_def)

lemma level_push_keys:
  "fst ` set (level_push cmp ord m) = insert (price ord) (fst ` set m)"
proof (induction m)
  case Nil
  then show ?case by (simp add: level_push_Nil)
next
  case (Cons kq m)
  obtain k q where kq: "kq = (k, q)" by (cases kq)
  show ?case
    unfolding kq level_push_Cons using Cons.IH
    by (cases "k = price ord"; cases "cmp (price ord) k") (simp_all add: insert_commute)
qed

lemma level_push_ok:
  assumes "levels_ok cmp sd m" and "side ord = sd"
    and tr: "\<And>x y z. cmp x y \<Longrightarrow> cmp y z \<Longrightarrow> cmp x z"
    and tot: "\<And>x y. x \<noteq> y \<Longrightarrow> \<not> cmp x y \<Longrightarrow> cmp y x"
  shows "levels_ok cmp sd (level_push cmp ord m)"
  using assms(1)
proof (induction m)
  case Nil
  then show ?case using assms(2) by (simp add: level_push_Nil levels_ok_def)
next
  case (Cons kq m)
  obtain k q where kq: "kq = (k, q)" by (cases kq)
  have ok: "levels_ok cmp sd m" using Cons.prems by (auto simp: levels_ok_def)
  show ?case
  proof (cases "k = price ord")
    case True
    then show ?thesis using Cons.prems assms(2) by (auto simp: kq level_push_Cons levels_ok_def)
  next
    case False
    note ne = this
    show ?thesis
    proof (cases "cmp (price ord) k")
      case True
      have "\<forall>x \<in> set (map fst m). cmp (price ord) x"
        using Cons.prems True tr by (auto simp: kq levels_ok_def)
      then show ?thesis
        using Cons.prems True ne assms(2) by (auto simp: kq level_push_Cons levels_ok_def)
    next
      case False
      have "cmp k (price ord)" using ne False tot by blast
      moreover have "\<forall>x \<in> fst ` set m. cmp k x" using Cons.prems by (auto simp: kq levels_ok_def)
      ultimately have "\<forall>x \<in> fst ` set (level_push cmp ord m). cmp k x"
        by (simp add: level_push_keys)
      then show ?thesis
        using Cons.IH [OF ok] Cons.prems ne False
        by (auto simp: kq level_push_Cons levels_ok_def)
    qed
  qed
qed

lemma level_push_concat:
  "\<exists>xs ys. concat (map snd m) = xs @ ys \<and>
     concat (map snd (level_push cmp ord m)) = xs @ ord # ys"
proof (induction m)
  case Nil
  then show ?case by (simp add: level_push_Nil)
next
  case (Cons kq m)
  obtain k q where kq: "kq = (k, q)" by (cases kq)
  from Cons.IH obtain xs ys where
    IH: "concat (map snd m) = xs @ ys" "concat (map snd (level_push cmp ord m)) = xs @ ord # ys"
    by blast
  show ?case
  proof (cases "k = price ord")
    case True
    have "concat (map snd (kq # m)) = q @ concat (map snd m)"
      "concat (map snd (level_push cmp ord (kq # m))) = q @ ord # concat (map snd m)"
      using True by (simp_all add: kq level_push_Cons)
    then show ?thesis by blast
  next
    case False
    show ?thesis
    proof (cases "cmp (price ord) k")
      case True
      have "concat (map snd (kq # m)) = [] @ concat (map snd (kq # m))"
        "concat (map snd (level_push cmp ord (kq # m))) = [] @ ord # concat (map snd (kq # m))"
        using True False by (simp_all add: kq level_push_Cons)
      then show ?thesis by blast
    next
      case c: False
      have "concat (map snd (kq # m)) = (q @ xs) @ ys"
        "concat (map snd (level_push cmp ord (kq # m))) = (q @ xs) @ ord # ys"
        using c False IH by (simp_all add: kq level_push_Cons)
      then show ?thesis by blast
    qed
  qed
qed

lemma level_Cons: "level p ((k, q) # m) = (if k = p then q else level p m)"
  by (simp add: level_def)

lemma level_Nil: "level p [] = []"
  by (simp add: level_def)

lemma level_level_push:
  assumes "sorted_wrt cmp (map fst m)" and "\<And>x. \<not> cmp x x"
    and tr: "\<And>x y z. cmp x y \<Longrightarrow> cmp y z \<Longrightarrow> cmp x z"
  shows "level p (level_push cmp ord m) =
     (if p = price ord then level p m @ [ord] else level p m)"
  using assms(1)
proof (induction m)
  case Nil
  then show ?case by (simp add: level_push_Nil level_Cons level_Nil)
next
  case (Cons kq m)
  obtain k q where kq: "kq = (k, q)" by (cases kq)
  show ?case
  proof (cases "k = price ord")
    case True
    then show ?thesis by (simp add: kq level_push_Cons level_Cons level_Nil)
  next
    case False
    note ne = this
    show ?thesis
    proof (cases "cmp (price ord) k")
      case True
      have "\<forall>x \<in> fst ` set m. cmp k x"
        using Cons.prems by (simp add: kq)
      then have "\<forall>x \<in> fst ` set m. cmp (price ord) x"
        using True tr by blast
      then have "price ord \<notin> fst ` set m"
        using assms(2) by blast
      then have "level (price ord) m = []" by (rule level_absent)
      then show ?thesis using True ne by (simp add: kq level_push_Cons level_Cons level_Nil)
    next
      case False
      have "level p (level_push cmp ord m) =
          (if p = price ord then level p m @ [ord] else level p m)"
        using Cons by simp
      then show ?thesis using ne False
        by (cases "p = price ord") (simp_all add: kq level_push_Cons level_Cons)
    qed
  qed
qed


lemma book_ok_empty: "book_ok empty_book"
  by (simp add: book_ok_def empty_book_def levels_ok_def resting_def)

lemma book_ok_registered:
  assumes "book_ok b" and "x \<in> set (resting b)"
  shows "orders b (order_id x) = Some \<lparr>entry_order = x\<rparr>"
  using assms unfolding book_ok_def by (metis OrderEntry.select_convs(1))

lemma resting_insert_order:
  "\<exists>xs ys. resting b = xs @ ys \<and> resting (insert_order ord b) = xs @ ord # ys"
proof (cases "side ord = Buy")
  case True
  obtain xs ys where "concat (map snd (bids b)) = xs @ ys"
    "concat (map snd (level_push (\<lambda>x y. x > y) ord (bids b))) = xs @ ord # ys"
    using level_push_concat by blast
  then have "resting b = xs @ (ys @ concat (map snd (asks b)))"
    "resting (insert_order ord b) = xs @ ord # (ys @ concat (map snd (asks b)))"
    using True by (simp_all add: resting_def insert_order_eq)
  then show ?thesis by blast
next
  case False
  obtain xs ys where "concat (map snd (asks b)) = xs @ ys"
    "concat (map snd (level_push (\<lambda>x y. x < y) ord (asks b))) = xs @ ord # ys"
    using level_push_concat by blast
  then have "resting b = (concat (map snd (bids b)) @ xs) @ ys"
    "resting (insert_order ord b) = (concat (map snd (bids b)) @ xs) @ ord # ys"
    using False by (simp_all add: resting_def insert_order_eq)
  then show ?thesis by blast
qed

lemma insert_order_ok:
  assumes "book_ok b" and "order_id ord \<notin> dom (orders b)"
  shows "book_ok (insert_order ord b)"
proof -
  obtain xs ys where r: "resting b = xs @ ys" "resting (insert_order ord b) = xs @ ord # ys"
    using resting_insert_order by blast
  have fresh: "order_id x \<noteq> order_id ord" if "x \<in> set (resting b)" for x
    using book_ok_registered [OF assms(1) that] assms(2) by auto
  then have "order_id ord \<notin> order_id ` set (xs @ ys)"
    unfolding r(1) by (metis imageE)
  moreover have d0: "distinct (map order_id (xs @ ys))"
    using assms(1) by (simp add: book_ok_def r)
  ultimately have 3: "distinct (map order_id (resting (insert_order ord b)))"
    unfolding r(2) by auto
  have sd: "side ord \<noteq> Buy \<Longrightarrow> side ord = Sell" by (cases "side ord") auto
  have 1: "levels_ok (\<lambda>x y. x > y) Buy (bids (insert_order ord b))"
    using assms(1) by (auto simp: insert_order_eq book_ok_def intro!: level_push_ok)
  have 2: "levels_ok (\<lambda>x y. x < y) Sell (asks (insert_order ord b))"
    using assms(1) sd by (auto simp: insert_order_eq book_ok_def intro!: level_push_ok)
  have o: "orders (insert_order ord b) = (orders b)(order_id ord \<mapsto> \<lparr>entry_order = ord\<rparr>)"
    by (simp add: insert_order_eq)
  have reg0: "\<And>i e. orders b i = Some e \<longleftrightarrow>
        entry_order e \<in> set (resting b) \<and> order_id (entry_order e) = i"
    using assms(1) by (simp add: book_ok_def)
  have m: "x \<in> set (resting (insert_order ord b)) \<longleftrightarrow> x = ord \<or> x \<in> set (resting b)" for x
    unfolding r by auto
  have 4: "orders (insert_order ord b) i = Some e \<longleftrightarrow>
        entry_order e \<in> set (resting (insert_order ord b)) \<and> order_id (entry_order e) = i" for i e
  proof (cases "i = order_id ord")
    case True
    have "entry_order e \<in> set (resting (insert_order ord b)) \<and> order_id (entry_order e) = i
        \<longleftrightarrow> entry_order e = ord"
      unfolding m True using fresh by blast
    moreover have "\<lparr>entry_order = ord\<rparr> = e \<longleftrightarrow> entry_order e = ord"
      by (cases e) auto
    ultimately show ?thesis using True by (simp add: o)
  next
    case False
    have "entry_order e \<in> set (resting (insert_order ord b)) \<and> order_id (entry_order e) = i
        \<longleftrightarrow> entry_order e \<in> set (resting b) \<and> order_id (entry_order e) = i"
      unfolding m using False by blast
    then show ?thesis using False by (simp add: o reg0)
  qed
  show ?thesis unfolding book_ok_def using 1 2 3 4 by blast
qed

subsection \<open>What a call adds to the trades and to the history\<close>

text \<open>
  The loops only add trades and only add reads to the history; a loop that returns the
  trades it was given has changed nothing, and every trade comes with the read of a
  destroyed front node.
\<close>

lemma match_level_grows:
  "match_level bp ap b trades = Inr (b', trades') \<Longrightarrow>
     \<exists>ts rs. trades' = trades @ ts \<and> undefined_reads b' = undefined_reads b @ rs \<and>
       (ts = [] \<longrightarrow> bids b' = bids b \<and> asks b' = asks b \<and> orders b' = orders b) \<and>
       (ts \<noteq> [] \<longrightarrow> rs \<noteq> [])"
proof (induction bp ap b trades rule: match_level.induct)
  case (1 bp ap b trades)
  show ?case
  proof (cases "\<exists>bq aq. map_of (bids b) bp = Some bq \<and> bq \<noteq> [] \<and>
      map_of (asks b) ap = Some aq \<and> aq \<noteq> []")
    case False
    then have "trades' = trades @ [] \<and>
        (undefined_reads b' = undefined_reads b @ [] \<or>
         undefined_reads b' = undefined_reads b @ [(Bids_ref, 203)] \<or>
         undefined_reads b' = undefined_reads b @ [(Asks_ref, 203)]) \<and>
        bids b' = bids b \<and> asks b' = asks b \<and> orders b' = orders b"
      using "1.prems" by (subst (asm) match_level.simps) (auto split: option.splits if_splits)
    then show ?thesis by blast
  next
    case True
    then obtain bq aq where h: "map_of (bids b) bp = Some bq" "bq \<noteq> []"
      "map_of (asks b) ap = Some aq" "aq \<noteq> []" by blast
    obtain b1 x where mf: "match_front bp ap b trades = Inr (b1, trades @ [x])"
      by (simp add: match_front_eq Let_def)
    from match_front_reads [OF mf] obtain r rs1 where
      r1: "undefined_reads b1 = undefined_reads b @ r # rs1" by blast
    have "match_level bp ap b trades = match_level bp ap b1 (trades @ [x])"
      by (subst match_level.simps) (use h mf in simp)
    with "1.IH" [OF h mf refl] "1.prems" obtain ts rs where
      "trades' = (trades @ [x]) @ ts" "undefined_reads b' = undefined_reads b1 @ rs"
      by auto
    then have "trades' = trades @ (x # ts)" "undefined_reads b' = undefined_reads b @ (r # rs1 @ rs)"
      by (simp_all add: r1)
    then show ?thesis by blast
  qed
qed

lemma MatchOrders_loop_grows:
  assumes "MatchOrders_loop b trades = Some (Inr (trades', b'))"
  shows "\<exists>ts rs. trades' = trades @ ts \<and> undefined_reads b' = undefined_reads b @ rs \<and>
       (ts = [] \<longrightarrow> b' = b \<and> \<not> crossing b) \<and> (ts \<noteq> [] \<longrightarrow> rs \<noteq> [])"
proof -
  have "\<forall>trades' b'. y = Inr (trades', b') \<longrightarrow>
      (\<exists>ts rs. trades' = trades @ ts \<and> undefined_reads b' = undefined_reads b @ rs \<and>
       (ts = [] \<longrightarrow> b' = b \<and> \<not> crossing b) \<and> (ts \<noteq> [] \<longrightarrow> rs \<noteq> []))"
    if "MatchOrders_loop b trades = Some y" for y
  proof (rule MatchOrders_loop.raw_induct [where P = "\<lambda>b trades y. \<forall>trades' b'. y = Inr (trades', b') \<longrightarrow>
      (\<exists>ts rs. trades' = trades @ ts \<and> undefined_reads b' = undefined_reads b @ rs \<and>
       (ts = [] \<longrightarrow> b' = b \<and> \<not> crossing b) \<and> (ts \<noteq> [] \<longrightarrow> rs \<noteq> []))", OF _ that])
    fix loop :: "OrderBook \<Rightarrow> Trades \<Rightarrow> (error + (Trades \<times> OrderBook)) option"
      and b trades y
    assume IH: "\<And>b trades y. loop b trades = Some y \<Longrightarrow> \<forall>trades' b'. y = Inr (trades', b') \<longrightarrow>
      (\<exists>ts rs. trades' = trades @ ts \<and> undefined_reads b' = undefined_reads b @ rs \<and>
       (ts = [] \<longrightarrow> b' = b \<and> \<not> crossing b) \<and> (ts \<noteq> [] \<longrightarrow> rs \<noteq> []))"
      and body: "(if bids b = [] \<or> asks b = [] then Some (Inr (trades, b))
        else let bid_price = fst (hd (bids b)); ask_price = fst (hd (asks b))
             in if bid_price < ask_price then Some (Inr (trades, b))
                else case match_level bid_price ask_price b trades of
                     Inl e \<Rightarrow> Some (Inl e)
                     | Inr (b', trades') \<Rightarrow> loop b' trades') = Some y"
    show "\<forall>trades' b'. y = Inr (trades', b') \<longrightarrow>
      (\<exists>ts rs. trades' = trades @ ts \<and> undefined_reads b' = undefined_reads b @ rs \<and>
       (ts = [] \<longrightarrow> b' = b \<and> \<not> crossing b) \<and> (ts \<noteq> [] \<longrightarrow> rs \<noteq> []))"
    proof (intro allI impI)
      fix trades' b' assume y: "y = Inr (trades', b')"
      show "\<exists>ts rs. trades' = trades @ ts \<and> undefined_reads b' = undefined_reads b @ rs \<and>
       (ts = [] \<longrightarrow> b' = b \<and> \<not> crossing b) \<and> (ts \<noteq> [] \<longrightarrow> rs \<noteq> [])"
      proof (cases "crossing b")
        case False
        then have "trades' = trades @ [] \<and> undefined_reads b' = undefined_reads b @ [] \<and> b' = b"
          using body y by (auto simp: Let_def crossing_def split: if_splits)
        with False show ?thesis by blast
      next
        case True
        obtain b1 t1 where ml: "match_level (fst (hd (bids b))) (fst (hd (asks b))) b trades = Inr (b1, t1)"
          by (cases "match_level (fst (hd (bids b))) (fst (hd (asks b))) b trades")
             (auto simp: match_level_Inr)
        then have "loop b1 t1 = Some y" using body True by (auto simp: Let_def crossing_def)
        from IH [OF this] y obtain ts2 rs2 where
          2: "trades' = t1 @ ts2" "undefined_reads b' = undefined_reads b1 @ rs2"
            "ts2 = [] \<longrightarrow> b' = b1 \<and> \<not> crossing b1" "ts2 \<noteq> [] \<longrightarrow> rs2 \<noteq> []"
          by blast
        from match_level_grows [OF ml] obtain ts1 rs1 where
          1: "t1 = trades @ ts1" "undefined_reads b1 = undefined_reads b @ rs1"
            "ts1 = [] \<longrightarrow> bids b1 = bids b \<and> asks b1 = asks b \<and> orders b1 = orders b"
            "ts1 \<noteq> [] \<longrightarrow> rs1 \<noteq> []"
          by blast
        have c: "ts1 = [] \<longrightarrow> crossing b1" using 1(3) True by (simp add: crossing_def)
        have "trades' = trades @ (ts1 @ ts2)" "undefined_reads b' = undefined_reads b @ (rs1 @ rs2)"
          by (simp_all add: 1 2)
        moreover have "ts1 @ ts2 \<noteq> []" using c 2(3) by auto
        moreover have "rs1 @ rs2 \<noteq> []" using c 1(4) 2(3,4) by auto
        ultimately show ?thesis by blast
      qed
    qed
  qed
  with assms show ?thesis by blast
qed

lemma CanMatch_iff:
  "CanMatch b sd pr \<longleftrightarrow>
     (if sd = Buy then asks b \<noteq> [] \<and> fst (hd (asks b)) \<le> pr
      else bids b \<noteq> [] \<and> pr \<le> fst (hd (bids b)))"
  by (cases "asks b"; cases "bids b") (auto simp: CanMatch_def)

subsection \<open>The calls the language defines\<close>

text \<open>
  A call whose result has the history it was given has read no destroyed element. Such a
  call of \<^verbatim>\<open>AddOrder\<close> makes no trade: it rejects the order, or inserts it in a book that
  does not cross afterwards. Such a call of \<^verbatim>\<open>CancelOrder\<close> or \<^verbatim>\<open>MatchOrder\<close> is given an
  identifier that is not registered and changes nothing. Every call of \<^verbatim>\<open>AddOrder\<close> that
  makes a trade, and every call of \<^verbatim>\<open>CancelOrder\<close> or \<^verbatim>\<open>MatchOrder\<close> with a registered
  identifier, reads a destroyed element.
\<close>

lemma undefined_reads_insert_order [simp]:
  "undefined_reads (insert_order ord b) = undefined_reads b"
  by (simp add: insert_order_eq)

lemma AddOrder_grows:
  assumes "AddOrder ord b = Some (Inr (trades, b'))"
  shows "\<exists>rs. undefined_reads b' = undefined_reads b @ rs \<and> (trades \<noteq> [] \<longrightarrow> rs \<noteq> [])"
proof (cases "order_id ord \<in> dom (orders b) \<or>
    (order_type ord = FillAndKill \<and> \<not> CanMatch b (side ord) (price ord))")
  case True
  then have "AddOrder ord b = Some (Inr ([], b))" by (auto simp: AddOrder_def)
  with assms show ?thesis by simp
next
  case False
  then have "MatchOrders_loop (insert_order ord b) [] = Some (Inr (trades, b'))"
    using assms by (auto simp: AddOrder_def MatchOrders_def)
  from MatchOrders_loop_grows [OF this] show ?thesis by auto
qed

lemma AddOrder_defined:
  assumes "AddOrder ord b = Some (Inr (trades, b'))"
    and "undefined_reads b' = undefined_reads b"
  shows "trades = [] \<and>
     (b' = b \<or> (b' = insert_order ord b \<and> order_id ord \<notin> dom (orders b) \<and> \<not> crossing b'))"
proof (cases "order_id ord \<in> dom (orders b) \<or>
    (order_type ord = FillAndKill \<and> \<not> CanMatch b (side ord) (price ord))")
  case True
  then have "AddOrder ord b = Some (Inr ([], b))" by (auto simp: AddOrder_def)
  with assms show ?thesis by simp
next
  case False
  then have "MatchOrders_loop (insert_order ord b) [] = Some (Inr (trades, b'))"
    using assms by (auto simp: AddOrder_def MatchOrders_def)
  from MatchOrders_loop_grows [OF this] assms(2) False show ?thesis by auto
qed

lemma CancelOrder_unknown: "orders b oid = None \<Longrightarrow> CancelOrder oid b = Inr b"
  by (simp add: CancelOrder_def)

lemma MatchOrder_unknown:
  "orders b (om_order_id m) = None \<Longrightarrow> MatchOrder m b = Some (Inr ([], b))"
  by (simp add: MatchOrder_def)

definition cancel_reads :: "Side \<Rightarrow> undefined_read list" where
  "cancel_reads sd =
     (if sd = Sell then [(Order_ref, 279), (Order_ref, 280), (Iterator_ref, 282)]
      else [(Order_ref, 279), (Order_ref, 286), (Iterator_ref, 288)])"

lemma CancelOrder_reads:
  assumes "orders b oid = Some e" and "CancelOrder oid b = Inr b'"
  shows "undefined_reads b' = undefined_reads b @ cancel_reads (side (entry_order e)) \<and>
     orders b' = (orders b)(oid := None)"
  using assms
  by (auto simp: CancelOrder_def read_entry_def cancel_reads_def Let_def
      split: option.splits if_splits)

lemma CancelOrder_defined:
  assumes "CancelOrder oid b = Inr b'" and "undefined_reads b' = undefined_reads b"
  shows "b' = b \<and> oid \<notin> dom (orders b)"
proof (cases "orders b oid")
  case None
  then show ?thesis using assms(1) by (auto simp: CancelOrder_def)
next
  case (Some e)
  from CancelOrder_reads [OF Some assms(1)] assms(2) show ?thesis
    by (simp add: cancel_reads_def split: if_splits)
qed

lemma MatchOrder_reads:
  assumes "orders b (om_order_id m) = Some e" and "MatchOrder m b = Some (Inr (trades, b'))"
  shows "\<exists>rs. undefined_reads b' = undefined_reads b @ cancel_reads (side (entry_order e)) @
     (Existing_order_ref, 299) # rs"
proof -
  obtain b1 where c: "CancelOrder (om_order_id m) b = Inr b1"
    using assms by (cases "CancelOrder (om_order_id m) b") (auto simp: MatchOrder_def)
  note r = CancelOrder_reads [OF assms(1) c]
  define b2 where "b2 = read_entry Existing_order_ref 299 (om_order_id m) b1"
  have u: "undefined_reads b2 = undefined_reads b @ cancel_reads (side (entry_order e)) @
      [(Existing_order_ref, 299)]"
    using r by (simp add: b2_def read_entry_def)
  have "AddOrder (ToOrderPointer m (order_type (entry_order e))) b2 = Some (Inr (trades, b'))"
    using assms c by (simp add: MatchOrder_def b2_def)
  from AddOrder_grows [OF this] show ?thesis by (auto simp: u)
qed

lemma MatchOrder_defined:
  assumes "MatchOrder m b = Some (Inr (trades, b'))"
    and "undefined_reads b' = undefined_reads b"
  shows "b' = b \<and> trades = [] \<and> om_order_id m \<notin> dom (orders b)"
proof (cases "orders b (om_order_id m)")
  case None
  then show ?thesis using assms(1) by (auto simp: MatchOrder_def)
next
  case (Some e)
  from MatchOrder_reads [OF Some assms(1)] assms(2) show ?thesis by auto
qed

subsection \<open>Books between calls\<close>

text \<open>
  The books that calls of the public operations make from the empty book in executions
  the language defines: no call has read a destroyed element.
\<close>

inductive reachable :: "OrderBook \<Rightarrow> bool" where
  reachable_empty: "reachable empty_book"
| reachable_AddOrder:
    "reachable b \<Longrightarrow> AddOrder ord b = Some (Inr (trades, b')) \<Longrightarrow>
     undefined_reads b' = [] \<Longrightarrow> reachable b'"
| reachable_CancelOrder:
    "reachable b \<Longrightarrow> CancelOrder oid b = Inr b' \<Longrightarrow>
     undefined_reads b' = [] \<Longrightarrow> reachable b'"
| reachable_MatchOrder:
    "reachable b \<Longrightarrow> MatchOrder m b = Some (Inr (trades, b')) \<Longrightarrow>
     undefined_reads b' = [] \<Longrightarrow> reachable b'"

lemma reachable_defined: "reachable b \<Longrightarrow> undefined_reads b = []"
  by (induction rule: reachable.induct) (simp_all add: empty_book_def)

lemma reachable_ok: "reachable b \<Longrightarrow> book_ok b \<and> \<not> crossing b"
proof (induction rule: reachable.induct)
  case reachable_empty
  then show ?case using book_ok_empty by (simp add: crossing_def empty_book_def)
next
  case (reachable_AddOrder b ord trades b')
  have "undefined_reads b' = undefined_reads b"
    using reachable_AddOrder.hyps(1,3) by (simp add: reachable_defined)
  from AddOrder_defined [OF reachable_AddOrder.hyps(2) this] reachable_AddOrder.IH
  show ?case by (auto intro: insert_order_ok)
next
  case (reachable_CancelOrder b oid b')
  have "undefined_reads b' = undefined_reads b"
    using reachable_CancelOrder.hyps(1,3) by (simp add: reachable_defined)
  from CancelOrder_defined [OF reachable_CancelOrder.hyps(2) this] reachable_CancelOrder.IH
  show ?case by simp
next
  case (reachable_MatchOrder b m trades b')
  have "undefined_reads b' = undefined_reads b"
    using reachable_MatchOrder.hyps(1,3) by (simp add: reachable_defined)
  from MatchOrder_defined [OF reachable_MatchOrder.hyps(2) this] reachable_MatchOrder.IH
  show ?case by simp
qed

subsection \<open>Running the operations on given books\<close>

lemmas run_simps = AddOrder_def CanMatch_def insert_order_eq level_push_Nil level_push_Cons
  MatchOrders_def MatchOrders_loop.simps match_level.simps match_front_eq side_after_def
  level_Cons level_Nil level_def filled_by_def IsFilled_def share_def Let_def new_Order_def
  front_reads_def

lemmas cancel_simps = CancelOrder_def MatchOrder_def ToOrderPointer_def read_entry_def
  level_Cons level_Nil Let_def

text \<open>A book with one ask of 10 at 100, order 1, made by one call of \<^verbatim>\<open>AddOrder\<close>.\<close>

definition one_ask :: OrderBook where
  "one_ask =
     \<lparr>bids = [], asks = [(100, [new_Order GoodTillCancel 1 Sell 100 10])],
      orders = [1 \<mapsto> \<lparr>entry_order = new_Order GoodTillCancel 1 Sell 100 10\<rparr>],
      undefined_reads = []\<rparr>"

lemma AddOrder_first_ask:
  "AddOrder (new_Order GoodTillCancel 1 Sell 100 10) empty_book = Some (Inr ([], one_ask))"
  by (simp add: AddOrder_def MatchOrders_def MatchOrders_loop.simps insert_order_eq
      level_push_Nil empty_book_def new_Order_def one_ask_def)

lemma one_ask_reachable: "reachable one_ask"
  using reachable_empty AddOrder_first_ask
  by (rule reachable_AddOrder) (simp add: one_ask_def)

text \<open>A book with two asks at 100, orders 1 and 2 in this order, made by two insertions.\<close>

definition two_asks :: OrderBook where
  "two_asks = insert_order (new_Order GoodTillCancel 2 Sell 100 5)
      (insert_order (new_Order GoodTillCancel 1 Sell 100 10) empty_book)"

lemma two_asks_ok: "book_ok two_asks"
  unfolding two_asks_def
  by (intro insert_order_ok book_ok_empty)
     (simp_all add: insert_order_eq empty_book_def new_Order_def)

lemma two_asks_eq:
  "two_asks = \<lparr>bids = [],
     asks = [(100, [new_Order GoodTillCancel 1 Sell 100 10, new_Order GoodTillCancel 2 Sell 100 5])],
     orders = [1 \<mapsto> \<lparr>entry_order = new_Order GoodTillCancel 1 Sell 100 10\<rparr>,
               2 \<mapsto> \<lparr>entry_order = new_Order GoodTillCancel 2 Sell 100 5\<rparr>],
     undefined_reads = []\<rparr>"
  by (simp add: two_asks_def insert_order_eq empty_book_def new_Order_def
      level_push_Nil level_push_Cons)

lemma two_asks_reachable: "reachable two_asks"
proof -
  have "AddOrder (new_Order GoodTillCancel 2 Sell 100 5) one_ask = Some (Inr ([], two_asks))"
    by (simp add: run_simps one_ask_def two_asks_eq)
  with one_ask_reachable show ?thesis
    by (rule reachable_AddOrder) (simp add: two_asks_eq)
qed

text \<open>A book with a bid of 5 at 101 and a bid of 10 at 100, orders 1 and 2.\<close>

definition two_bids :: OrderBook where
  "two_bids =
     \<lparr>bids = [(101, [new_Order GoodTillCancel 1 Buy 101 5]),
              (100, [new_Order GoodTillCancel 2 Buy 100 10])],
      asks = [],
      orders = [1 \<mapsto> \<lparr>entry_order = new_Order GoodTillCancel 1 Buy 101 5\<rparr>,
                2 \<mapsto> \<lparr>entry_order = new_Order GoodTillCancel 2 Buy 100 10\<rparr>],
      undefined_reads = []\<rparr>"

lemma two_bids_reachable: "reachable two_bids"
proof -
  have 1: "AddOrder (new_Order GoodTillCancel 1 Buy 101 5) empty_book =
      Some (Inr ([], \<lparr>bids = [(101, [new_Order GoodTillCancel 1 Buy 101 5])], asks = [],
        orders = [1 \<mapsto> \<lparr>entry_order = new_Order GoodTillCancel 1 Buy 101 5\<rparr>],
        undefined_reads = []\<rparr>))"
    by (simp add: run_simps empty_book_def)
  have 2: "AddOrder (new_Order GoodTillCancel 2 Buy 100 10)
      \<lparr>bids = [(101, [new_Order GoodTillCancel 1 Buy 101 5])], asks = [],
        orders = [1 \<mapsto> \<lparr>entry_order = new_Order GoodTillCancel 1 Buy 101 5\<rparr>],
        undefined_reads = []\<rparr> =
      Some (Inr ([], two_bids))"
    by (simp add: run_simps two_bids_def)
  have "reachable \<lparr>bids = [(101, [new_Order GoodTillCancel 1 Buy 101 5])], asks = [],
        orders = [1 \<mapsto> \<lparr>entry_order = new_Order GoodTillCancel 1 Buy 101 5\<rparr>],
        undefined_reads = []\<rparr>"
    using reachable_empty 1 by (rule reachable_AddOrder) simp
  then show ?thesis using 2 by (rule reachable_AddOrder) (simp add: two_bids_def)
qed

text \<open>
  The book the call of \<^verbatim>\<open>AddOrder\<close> with a FillAndKill buy of 15 at 100, order 2, makes of
  \<open>one_ask\<close>.
\<close>

definition fak_book :: OrderBook where
  "fak_book =
     \<lparr>bids = [(100, [(new_Order FillAndKill 2 Buy 100 15)\<lparr>remaining_quantity := 5\<rparr>])],
      asks = [],
      orders = [2 \<mapsto> \<lparr>entry_order =
                 (new_Order FillAndKill 2 Buy 100 15)\<lparr>remaining_quantity := 5\<rparr>\<rparr>],
      undefined_reads = [(Ask_ref, 217), (Ask_ref, 224), (Asks_ref, 203)]\<rparr>"

lemma AddOrder_partial_fak:
  "AddOrder (new_Order FillAndKill 2 Buy 100 15) one_ask =
     Some (Inr ([\<lparr>bid_trade = \<lparr>ti_order_id = 2, ti_price = 100, ti_quantity = 10\<rparr>,
                  ask_trade = \<lparr>ti_order_id = 1, ti_price = 100, ti_quantity = 10\<rparr>\<rparr>], fak_book))"
  by (simp add: run_simps one_ask_def fak_book_def dangling_read_def)

subsection \<open>The depth query\<close>

lemma book_ok_sorted:
  assumes "book_ok b"
  shows "sorted_wrt (\<lambda>x y. x > y) (map fst (bids b))" "sorted_wrt (\<lambda>x y. x < y) (map fst (asks b))"
    "distinct (map fst (bids b))" "distinct (map fst (asks b))"
proof -
  have l: "levels_ok (\<lambda>x y. x > y) Buy (bids b)" "levels_ok (\<lambda>x y. x < y) Sell (asks b)"
    using assms by (simp_all add: book_ok_def)
  then show "sorted_wrt (\<lambda>x y. x > y) (map fst (bids b))"
    "sorted_wrt (\<lambda>x y. x < y) (map fst (asks b))"
    by (simp_all add: levels_ok_def)
  show "distinct (map fst (bids b))" "distinct (map fst (asks b))"
    using l by (auto intro: levels_ok_keys_distinct)
qed

lemma foldl_remaining:
  "foldl (\<lambda>running_sum ord. running_sum + remaining_quantity ord) a q =
     a + of_nat (sum_list (map (\<lambda>x. unat (remaining_quantity x)) q))"
  by (induction q arbitrary: a) (simp_all add: add.assoc)

lemma CreateLevelInfos_eq:
  "CreateLevelInfos pr q =
     \<lparr>li_price = pr,
      li_quantity = of_nat (sum_list (map (\<lambda>x. unat (remaining_quantity x)) q))\<rparr>"
  by (simp add: CreateLevelInfos_def foldl_remaining)

lemma unat_level_quantity:
  "unat (li_quantity (CreateLevelInfos pr q)) =
     sum_list (map (\<lambda>x. unat (remaining_quantity x)) q) mod 2 ^ 32"
  by (simp add: CreateLevelInfos_eq unat_of_nat)

text \<open>A book with two bids of \<open>2\<^sup>3\<^sup>1\<close> at 100, made by two calls of \<^verbatim>\<open>AddOrder\<close>.\<close>

definition big_book :: OrderBook where
  "big_book =
     \<lparr>bids = [(100, [new_Order GoodTillCancel 1 Buy 100 2147483648,
                      new_Order GoodTillCancel 2 Buy 100 2147483648])],
      asks = [],
      orders = [1 \<mapsto> \<lparr>entry_order = new_Order GoodTillCancel 1 Buy 100 2147483648\<rparr>,
                2 \<mapsto> \<lparr>entry_order = new_Order GoodTillCancel 2 Buy 100 2147483648\<rparr>],
      undefined_reads = []\<rparr>"

lemma big_book_reachable: "reachable big_book"
proof -
  have 1: "AddOrder (new_Order GoodTillCancel 1 Buy 100 2147483648) empty_book =
      Some (Inr ([], \<lparr>bids = [(100, [new_Order GoodTillCancel 1 Buy 100 2147483648])], asks = [],
        orders = [1 \<mapsto> \<lparr>entry_order = new_Order GoodTillCancel 1 Buy 100 2147483648\<rparr>],
        undefined_reads = []\<rparr>))"
    by (simp add: run_simps empty_book_def)
  have 2: "AddOrder (new_Order GoodTillCancel 2 Buy 100 2147483648)
      \<lparr>bids = [(100, [new_Order GoodTillCancel 1 Buy 100 2147483648])], asks = [],
        orders = [1 \<mapsto> \<lparr>entry_order = new_Order GoodTillCancel 1 Buy 100 2147483648\<rparr>],
        undefined_reads = []\<rparr> =
      Some (Inr ([], big_book))"
    by (simp add: run_simps big_book_def)
  have "reachable \<lparr>bids = [(100, [new_Order GoodTillCancel 1 Buy 100 2147483648])], asks = [],
        orders = [1 \<mapsto> \<lparr>entry_order = new_Order GoodTillCancel 1 Buy 100 2147483648\<rparr>],
        undefined_reads = []\<rparr>"
    using reachable_empty 1 by (rule reachable_AddOrder) simp
  then show ?thesis using 2 by (rule reachable_AddOrder) (simp add: big_book_def)
qed

section \<open>The claims\<close>

text \<open>
  C1. The claim fails on the program. A FillAndKill buy of 15 at 100 (identifier 2) is added to
  the book that holds one ask of 10 at 100 (identifier 1), a book the public operations
  make. The call returns one trade of 10, and the order 2, with 5 remaining and not filled,
  rests at the front of the bid level 100 and in the registry: the blocks of \<^verbatim>\<open>MatchOrders\<close>
  meant to cancel it (lines 228 to 242) have their call of \<^verbatim>\<open>CancelOrder\<close> commented out.
  On its way the call reads the destroyed node of the filled ask (lines 217 and 224) and
  the erased ask level (line 203); the order rests whatever these reads give, since nothing
  after the loop removes an order.
\<close>

theorem FillAndKill_rests_partly_filled:
  "reachable \<lparr>bids = [], asks = [(100, [new_Order GoodTillCancel 1 Sell 100 10])],
      orders = [1 \<mapsto> \<lparr>entry_order = new_Order GoodTillCancel 1 Sell 100 10\<rparr>],
      undefined_reads = []\<rparr> \<and>
   AddOrder (new_Order FillAndKill 2 Buy 100 15)
     \<lparr>bids = [], asks = [(100, [new_Order GoodTillCancel 1 Sell 100 10])],
      orders = [1 \<mapsto> \<lparr>entry_order = new_Order GoodTillCancel 1 Sell 100 10\<rparr>],
      undefined_reads = []\<rparr> =
   Some (Inr ([\<lparr>bid_trade = \<lparr>ti_order_id = 2, ti_price = 100, ti_quantity = 10\<rparr>,
                ask_trade = \<lparr>ti_order_id = 1, ti_price = 100, ti_quantity = 10\<rparr>\<rparr>],
     \<lparr>bids = [(100, [(new_Order FillAndKill 2 Buy 100 15)\<lparr>remaining_quantity := 5\<rparr>])],
      asks = [],
      orders = [2 \<mapsto> \<lparr>entry_order =
                 (new_Order FillAndKill 2 Buy 100 15)\<lparr>remaining_quantity := 5\<rparr>\<rparr>],
      undefined_reads = [(Ask_ref, 217), (Ask_ref, 224), (Asks_ref, 203)]\<rparr>)) \<and>
   order_type ((new_Order FillAndKill 2 Buy 100 15)\<lparr>remaining_quantity := 5\<rparr>) = FillAndKill \<and>
   \<not> IsFilled ((new_Order FillAndKill 2 Buy 100 15)\<lparr>remaining_quantity := 5\<rparr>)"
  using one_ask_reachable AddOrder_partial_fak
  by (simp add: new_Order_def IsFilled_def one_ask_def fak_book_def)

text \<open>
  C7. For every book and every order, \<^verbatim>\<open>AddOrder\<close> returns no trades and the book as it was
  exactly when the identifier of the order is registered, or the order is FillAndKill and
  cannot cross: it is a buy and the ask side is empty or its price is below the best ask,
  or it is a sell and the bid side is empty or its price is above the best bid.
\<close>

theorem AddOrder_rejects_exactly:
  "AddOrder ord b = Some (Inr ([], b)) \<longleftrightarrow>
     order_id ord \<in> dom (orders b) \<or>
     (order_type ord = FillAndKill \<and>
      (if side ord = Buy then asks b = [] \<or> price ord < fst (hd (asks b))
       else bids b = [] \<or> fst (hd (bids b)) < price ord))"
proof -
  have cm: "\<not> CanMatch b (side ord) (price ord) \<longleftrightarrow>
      (if side ord = Buy then asks b = [] \<or> price ord < fst (hd (asks b))
       else bids b = [] \<or> fst (hd (bids b)) < price ord)"
    by (auto simp: CanMatch_iff)
  show ?thesis
  proof (cases "order_id ord \<in> dom (orders b) \<or>
      (order_type ord = FillAndKill \<and> \<not> CanMatch b (side ord) (price ord))")
    case True
    then have "AddOrder ord b = Some (Inr ([], b))" by (auto simp: AddOrder_def)
    with True show ?thesis unfolding cm by simp
  next
    case False
    then have a: "AddOrder ord b = MatchOrders_loop (insert_order ord b) []"
      by (auto simp: AddOrder_def MatchOrders_def)
    have "AddOrder ord b \<noteq> Some (Inr ([], b))"
    proof
      assume "AddOrder ord b = Some (Inr ([], b))"
      with a have "MatchOrders_loop (insert_order ord b) [] = Some (Inr ([], b))" by simp
      from MatchOrders_loop_grows [OF this] have "b = insert_order ord b" by auto
      then have "orders b = orders (insert_order ord b)" by simp
      also have "\<dots> = (orders b)(order_id ord \<mapsto> \<lparr>entry_order = ord\<rparr>)"
        by (simp add: insert_order_eq)
      finally have "orders b (order_id ord) = Some \<lparr>entry_order = ord\<rparr>"
        by (metis fun_upd_same)
      with False show False by blast
    qed
    with False show ?thesis unfolding cm by simp
  qed
qed

theorem AddOrder_rejects_exactly_witness:
  "AddOrder (new_Order FillAndKill 3 Buy 50 5) empty_book = Some (Inr ([], empty_book)) \<and>
   AddOrder (new_Order GoodTillCancel 3 Buy 50 5) empty_book \<noteq> Some (Inr ([], empty_book))"
  using AddOrder_rejects_exactly [of "new_Order FillAndKill 3 Buy 50 5" empty_book]
    AddOrder_rejects_exactly [of "new_Order GoodTillCancel 3 Buy 50 5" empty_book]
  by (simp add: new_Order_def empty_book_def)

text \<open>
  C9. The claim fails on the program where the remaining quantities of a level add up to
  \<open>2\<^sup>3\<^sup>2\<close> or more: \<^verbatim>\<open>std::accumulate\<close> adds in \<^verbatim>\<open>Quantity\<close>, which is \<^verbatim>\<open>std::uint32_t\<close>. In the
  book \<open>big_book\<close> the bid level 100 holds two orders of \<open>2\<^sup>3\<^sup>1\<close> each, 4294967296 in all, and
  the depth query reports the quantity 0 for it.
\<close>

theorem depth_quantity_wraps:
  "reachable big_book \<and>
   info_bids (GetOrderInfos big_book) = [\<lparr>li_price = 100, li_quantity = 0\<rparr>] \<and>
   bids big_book = [(100, [new_Order GoodTillCancel 1 Buy 100 2147483648,
                           new_Order GoodTillCancel 2 Buy 100 2147483648])] \<and>
   sum_list (map (\<lambda>x. unat (remaining_quantity x))
     [new_Order GoodTillCancel 1 Buy 100 2147483648,
      new_Order GoodTillCancel 2 Buy 100 2147483648]) = 4294967296"
  using big_book_reachable
  by (simp add: GetOrderInfos_def CreateLevelInfos_def big_book_def new_Order_def)

text \<open>
  C9, amended. For every book the depth query returns, for each side, one entry for each
  level of the side's map, in the order of the map, with the price of the level and the
  sum of the remaining quantities of the orders of its queue modulo \<open>2\<^sup>3\<^sup>2\<close>; on a
  well-formed book the prices of the bid entries are strictly descending and those of the
  ask entries strictly ascending. The query is a function of the book: it returns no new
  book.
\<close>

theorem depth_per_level:
  "map (\<lambda>e. (li_price e, unat (li_quantity e))) (info_bids (GetOrderInfos b)) =
     map (\<lambda>(p, q). (p, sum_list (map (\<lambda>x. unat (remaining_quantity x)) q) mod 2 ^ 32)) (bids b) \<and>
   map (\<lambda>e. (li_price e, unat (li_quantity e))) (info_asks (GetOrderInfos b)) =
     map (\<lambda>(p, q). (p, sum_list (map (\<lambda>x. unat (remaining_quantity x)) q) mod 2 ^ 32)) (asks b) \<and>
   (book_ok b \<longrightarrow>
      sorted_wrt (\<lambda>x y. x > y) (map li_price (info_bids (GetOrderInfos b))) \<and>
      sorted_wrt (\<lambda>x y. x < y) (map li_price (info_asks (GetOrderInfos b))))"
proof -
  have p: "li_price (CreateLevelInfos pr q) = pr" for pr q
    by (simp add: CreateLevelInfos_def)
  have 1: "map (\<lambda>e. (li_price e, unat (li_quantity e)))
        (map (\<lambda>(pr, q). CreateLevelInfos pr q) m) =
     map (\<lambda>(p, q). (p, sum_list (map (\<lambda>x. unat (remaining_quantity x)) q) mod 2 ^ 32)) m" for m
    by (induction m) (auto simp: p unat_level_quantity)
  have 2: "map li_price (map (\<lambda>(pr, q). CreateLevelInfos pr q) m) = map fst m" for m
    by (induction m) (auto simp: p)
  have g: "info_bids (GetOrderInfos b) = map (\<lambda>(pr, q). CreateLevelInfos pr q) (bids b)"
    "info_asks (GetOrderInfos b) = map (\<lambda>(pr, q). CreateLevelInfos pr q) (asks b)"
    by (simp_all add: GetOrderInfos_def)
  show ?thesis
    unfolding g 1 2 using book_ok_sorted(1,2) [of b] by blast
qed

theorem depth_per_level_witness:
  "book_ok two_asks \<and>
   map (\<lambda>e. (li_price e, unat (li_quantity e))) (info_asks (GetOrderInfos two_asks)) = [(100, 15)] \<and>
   info_bids (GetOrderInfos two_asks) = [] \<and>
   sorted_wrt (\<lambda>x y. x < y) (map li_price (info_asks (GetOrderInfos two_asks)))"
  using depth_per_level [of two_asks] two_asks_ok
  by (simp add: two_asks_eq new_Order_def GetOrderInfos_def)

text \<open>
  C2. The claim fails on the program. The buy of 4 at 100 (identifier 2) has been inserted
  in the book \<open>one_ask\<close>, and the body of the matching loop runs once. Both front orders are
  filled by 4, the smaller of 4 and 10. The bid is filled, so line 212 pops its node, and
  the identifier that line 213 erases from the registry and the identifier and the price of
  the bid leg of the trade (line 223) are read through \<^verbatim>\<open>bid\<close>, the reference to the popped
  node. The trade shown is what the reads give where the storage of the node keeps its
  contents. The quantity filled is the smaller of the two, so every run of the body pops a
  node and reads through the reference to it (\<open>match_front_reads\<close>).
\<close>

theorem match_front_reads_popped_node:
  "reachable one_ask \<and>
   match_front 100 100 (insert_order (new_Order GoodTillCancel 2 Buy 100 4) one_ask) [] =
     Inr (\<lparr>bids = [],
           asks = [(100, [(new_Order GoodTillCancel 1 Sell 100 10)\<lparr>remaining_quantity := 6\<rparr>])],
           orders = [1 \<mapsto> \<lparr>entry_order =
                      (new_Order GoodTillCancel 1 Sell 100 10)\<lparr>remaining_quantity := 6\<rparr>\<rparr>],
           undefined_reads = [(Bid_ref, 213), (Bid_ref, 223)]\<rparr>,
          [\<lparr>bid_trade = \<lparr>ti_order_id = 2, ti_price = 100, ti_quantity = 4\<rparr>,
            ask_trade = \<lparr>ti_order_id = 1, ti_price = 100, ti_quantity = 4\<rparr>\<rparr>])"
  using one_ask_reachable by (simp add: run_simps one_ask_def)

text \<open>
  C3. The claim fails on the program. The buy of 4 at 100 (identifier 2) is added to the book
  \<open>one_ask\<close>, the second call of the scenario of the specification. The book crosses after
  the insertion, and the loop that is to uncross it reads the popped node of the bid (lines
  213 and 223) and then, in its condition, the bid level that line 219 has erased (line
  203). The language defines no state for the book after the call. Every call of
  \<^verbatim>\<open>AddOrder\<close> that makes a trade reads a destroyed element (\<open>AddOrder_grows\<close>), and so does
  every call of \<^verbatim>\<open>MatchOrder\<close> with a registered identifier (\<open>MatchOrder_reads\<close>).
\<close>

theorem AddOrder_crossing_reads_destroyed:
  "reachable one_ask \<and>
   AddOrder (new_Order GoodTillCancel 2 Buy 100 4) one_ask =
     Some (Inr ([\<lparr>bid_trade = \<lparr>ti_order_id = 2, ti_price = 100, ti_quantity = 4\<rparr>,
                  ask_trade = \<lparr>ti_order_id = 1, ti_price = 100, ti_quantity = 4\<rparr>\<rparr>],
       \<lparr>bids = [],
        asks = [(100, [(new_Order GoodTillCancel 1 Sell 100 10)\<lparr>remaining_quantity := 6\<rparr>])],
        orders = [1 \<mapsto> \<lparr>entry_order =
                   (new_Order GoodTillCancel 1 Sell 100 10)\<lparr>remaining_quantity := 6\<rparr>\<rparr>],
        undefined_reads = [(Bid_ref, 213), (Bid_ref, 223), (Bids_ref, 203)]\<rparr>))"
  using one_ask_reachable by (simp add: run_simps one_ask_def dangling_read_def)


text \<open>
  C5. The claim fails on the program where the identifier is registered. Order 1 of the
  book \<open>one_ask\<close> is cancelled. Line 276 binds \<^verbatim>\<open>order\<close> and \<^verbatim>\<open>iterator\<close> as references into
  the registry node of the identifier, line 277 erases the node, and the side (line 279),
  the price (line 280) and the iterator (line 282), on which all that follows depends, are
  read through these references to the erased node. The book shown is what the reads give
  where the storage of the node keeps its contents. Every call with a registered
  identifier makes these reads (\<open>CancelOrder_reads\<close>); a call with an identifier that is
  not registered returns the book as it was (\<open>CancelOrder_unknown\<close>).
\<close>

theorem CancelOrder_reads_erased_entry:
  "reachable one_ask \<and>
   CancelOrder 1 one_ask =
     Inr \<lparr>bids = [], asks = [], orders = Map.empty,
          undefined_reads = [(Order_ref, 279), (Order_ref, 280), (Iterator_ref, 282)]\<rparr>"
  using one_ask_reachable
  by (simp add: cancel_simps one_ask_def new_Order_def dangling_read_def)

text \<open>
  C6. The claim fails on the program where the identifier is registered. Order 1 of the
  book \<open>two_asks\<close> is modified to a sell of 7 at 100. \<^verbatim>\<open>MatchOrder\<close> does not capture the
  type of the existing order: line 297 binds \<^verbatim>\<open>existing_order\<close> as a reference into the
  registry node, line 298 calls \<^verbatim>\<open>CancelOrder\<close>, which erases that node and reads side,
  price and iterator through its own references to it (lines 279, 280 and 282), and line
  299 reads the type for the new order through \<^verbatim>\<open>existing_order\<close>. The book shown, with the
  new order behind order 2, is what the reads give where the storage of the node keeps its
  contents. Every call with a registered identifier makes these reads (\<open>MatchOrder_reads\<close>);
  a call with an identifier that is not registered returns no trades and the book as it was
  (\<open>MatchOrder_unknown\<close>).
\<close>

theorem MatchOrder_reads_type_after_cancel:
  "reachable two_asks \<and>
   MatchOrder \<lparr>om_order_id = 1, om_side = Sell, om_price = 100, om_quantity = 7\<rparr> two_asks =
     Some (Inr ([],
       \<lparr>bids = [],
        asks = [(100, [new_Order GoodTillCancel 2 Sell 100 5,
                       new_Order GoodTillCancel 1 Sell 100 7])],
        orders = [2 \<mapsto> \<lparr>entry_order = new_Order GoodTillCancel 2 Sell 100 5\<rparr>,
                  1 \<mapsto> \<lparr>entry_order = new_Order GoodTillCancel 1 Sell 100 7\<rparr>],
        undefined_reads = [(Order_ref, 279), (Order_ref, 280), (Iterator_ref, 282),
                           (Existing_order_ref, 299)]\<rparr>))"
proof -
  have "MatchOrder \<lparr>om_order_id = 1, om_side = Sell, om_price = 100, om_quantity = 7\<rparr> two_asks =
     Some (Inr ([],
       \<lparr>bids = [],
        asks = [(100, [new_Order GoodTillCancel 2 Sell 100 5,
                       new_Order GoodTillCancel 1 Sell 100 7])],
        orders = [2 \<mapsto> \<lparr>entry_order = new_Order GoodTillCancel 2 Sell 100 5\<rparr>,
                  1 \<mapsto> \<lparr>entry_order = new_Order GoodTillCancel 1 Sell 100 7\<rparr>],
        undefined_reads = [(Order_ref, 279), (Order_ref, 280), (Iterator_ref, 282),
                           (Existing_order_ref, 299)]\<rparr>))"
    by (simp add: cancel_simps run_simps two_asks_eq dangling_read_def)
  with two_asks_reachable show ?thesis by simp
qed

text \<open>
  C10. The claim fails on the program. The FillAndKill order 2 rests in the book \<open>fak_book\<close>,
  which the call of \<^verbatim>\<open>AddOrder\<close> with a FillAndKill buy of 15 at 100 makes of \<open>one_ask\<close>, and
  is modified to a buy of 5 at 90. Whether the new order is FillAndKill, on which its
  rejection depends, is read at line 299 through \<^verbatim>\<open>existing_order\<close>, a reference into the
  registry node that \<^verbatim>\<open>CancelOrder\<close> has erased at line 277, and \<^verbatim>\<open>CancelOrder\<close> has read
  side, price and iterator through its own references to the erased node (lines 279, 286
  and 288). The empty book shown is what the reads give where the storage of the node
  keeps its contents.
\<close>

theorem modify_FillAndKill_reads_after_cancel:
  "reachable one_ask \<and>
   AddOrder (new_Order FillAndKill 2 Buy 100 15) one_ask =
     Some (Inr ([\<lparr>bid_trade = \<lparr>ti_order_id = 2, ti_price = 100, ti_quantity = 10\<rparr>,
                  ask_trade = \<lparr>ti_order_id = 1, ti_price = 100, ti_quantity = 10\<rparr>\<rparr>], fak_book)) \<and>
   MatchOrder \<lparr>om_order_id = 2, om_side = Buy, om_price = 90, om_quantity = 5\<rparr> fak_book =
     Some (Inr ([],
       \<lparr>bids = [], asks = [], orders = Map.empty,
        undefined_reads = [(Ask_ref, 217), (Ask_ref, 224), (Asks_ref, 203),
                           (Order_ref, 279), (Order_ref, 286), (Iterator_ref, 288),
                           (Existing_order_ref, 299)]\<rparr>))"
  using one_ask_reachable AddOrder_partial_fak
  by (simp add: cancel_simps run_simps fak_book_def dangling_read_def)

text \<open>
  C8. The claim fails on the program. \<^verbatim>\<open>Order::Fill\<close> raises exactly when the quantity
  asked exceeds the remaining quantity (\<open>Fill_raises_iff\<close>), and each run of the loop body
  asks both fills for the smaller of the two remaining quantities. But what the loop matches
  against an order is known from the trades, and each run of the body after the first
  runs after reads of destroyed elements. A sell of 8 at 100 (identifier 3) is added to the
  book \<open>two_bids\<close>. The first run of the body fills order 1 and reads its popped node for
  the registry (line 213) and for the bid leg of the trade (line 223), and the condition
  of the loop reads the erased level 101 (line 203); the second run, whose fills the
  claim is about, comes after these reads, pops the node of order 3 and reads it at lines
  217 and 224. The trades shown are what the reads give where the storage of a node keeps
  its contents.
\<close>

theorem fills_follow_reads_of_popped_nodes:
  "reachable two_bids \<and>
   AddOrder (new_Order GoodTillCancel 3 Sell 100 8) two_bids =
     Some (Inr ([\<lparr>bid_trade = \<lparr>ti_order_id = 1, ti_price = 101, ti_quantity = 5\<rparr>,
                  ask_trade = \<lparr>ti_order_id = 3, ti_price = 100, ti_quantity = 5\<rparr>\<rparr>,
                 \<lparr>bid_trade = \<lparr>ti_order_id = 2, ti_price = 100, ti_quantity = 3\<rparr>,
                  ask_trade = \<lparr>ti_order_id = 3, ti_price = 100, ti_quantity = 3\<rparr>\<rparr>],
       \<lparr>bids = [(100, [(new_Order GoodTillCancel 2 Buy 100 10)\<lparr>remaining_quantity := 7\<rparr>])],
        asks = [],
        orders = [2 \<mapsto> \<lparr>entry_order =
                   (new_Order GoodTillCancel 2 Buy 100 10)\<lparr>remaining_quantity := 7\<rparr>\<rparr>],
        undefined_reads = [(Bid_ref, 213), (Bid_ref, 223), (Bids_ref, 203),
                           (Ask_ref, 217), (Ask_ref, 224), (Asks_ref, 203)]\<rparr>))"
proof -
  have "AddOrder (new_Order GoodTillCancel 3 Sell 100 8) two_bids =
     Some (Inr ([\<lparr>bid_trade = \<lparr>ti_order_id = 1, ti_price = 101, ti_quantity = 5\<rparr>,
                  ask_trade = \<lparr>ti_order_id = 3, ti_price = 100, ti_quantity = 5\<rparr>\<rparr>,
                 \<lparr>bid_trade = \<lparr>ti_order_id = 2, ti_price = 100, ti_quantity = 3\<rparr>,
                  ask_trade = \<lparr>ti_order_id = 3, ti_price = 100, ti_quantity = 3\<rparr>\<rparr>],
       \<lparr>bids = [(100, [(new_Order GoodTillCancel 2 Buy 100 10)\<lparr>remaining_quantity := 7\<rparr>])],
        asks = [],
        orders = [2 \<mapsto> \<lparr>entry_order =
                   (new_Order GoodTillCancel 2 Buy 100 10)\<lparr>remaining_quantity := 7\<rparr>\<rparr>],
        undefined_reads = [(Bid_ref, 213), (Bid_ref, 223), (Bids_ref, 203),
                           (Ask_ref, 217), (Ask_ref, 224), (Asks_ref, 203)]\<rparr>))"
    by (simp add: run_simps two_bids_def dangling_read_def)
  with two_bids_reachable show ?thesis by simp
qed

end
